theory Spec2Isabelle
  imports Main
begin

section \<open>The user-suggest control (src/components/UserSuggest.vue)\<close>

text \<open>
  The component is a single-threaded, event-driven controller. Its reactive refs and the
  two module variables (\<open>debounceTimer\<close>, \<open>abortCtrl\<close>) are the fields of a record; every
  handler of the script is a function from state to state. What the host platform owns
  (the timer queue of \<open>setTimeout\<close>, the \<open>AbortController\<close> objects, the requests that
  \<open>fetch\<close> has in flight, the console) is part of the same record, so that the effects of
  the handlers are explicit. The caret position (\<open>updateCursorPosition\<close>, \<open>cursorPosition\<close>,
  the three element refs and \<open>scrollIntoView\<close>) is computed from DOM measurements only and
  is read by no handler; it is left out.
\<close>

subsection \<open>JavaScript values\<close>

text \<open>
  The payload of a response is \<open>any\<close>: whatever \<open>res.json()\<close> parsed. Numbers are
  restricted to integers (only their being zero, and their use as a length, matter here).
  An object is the list of its own properties.
\<close>

datatype json =
    JNull
  | JBool bool
  | JNum int
  | JStr string
  | JArr "json list"
  | JObj "(string \<times> json) list"

text \<open>Errors by their \<open>name\<close>, as the \<open>catch\<close> block tells them apart.\<close>

datatype jserror = AbortError | TypeError | SyntaxError | ApiError

fun truthy :: "json \<Rightarrow> bool" where
  "truthy JNull = False"
| "truthy (JBool b) = b"
| "truthy (JNum n) = (n \<noteq> 0)"
| "truthy (JStr s) = (s \<noteq> [])"
| "truthy (JArr xs) = True"
| "truthy (JObj kvs) = True"

text \<open>\<open>None\<close> is \<open>undefined\<close>.\<close>

fun truthy_opt :: "json option \<Rightarrow> bool" where
  "truthy_opt None = False"
| "truthy_opt (Some v) = truthy v"

text \<open>
  \<open>v.results\<close> for a value that is not \<open>null\<close> (on \<open>null\<close> the access throws; the caller
  handles that case first): an own property of an object, \<open>undefined\<close> on anything else.
\<close>

fun get_results :: "json \<Rightarrow> json option" where
  "get_results (JObj kvs) = map_of kvs ''results''"
| "get_results v = None"

text \<open>\<open>v.length\<close>, for a value that is not \<open>null\<close>.\<close>

fun js_length :: "json \<Rightarrow> json option" where
  "js_length (JArr xs) = Some (JNum (int (length xs)))"
| "js_length (JStr s) = Some (JNum (int (length s)))"
| "js_length (JObj kvs) = map_of kvs ''length''"
| "js_length v = None"

text \<open>
  The number that \<open>v.length - 1\<close> and \<open><\<close> see; \<open>None\<close> is \<open>NaN\<close>. The coercion of a
  string, an array or an object to a number is not modelled and is given as \<open>NaN\<close>; it is
  met only when the suggestions are a payload object whose own \<open>length\<close> is such a value,
  and every statement below about key navigation is about suggestions that are an array.
\<close>

fun to_number :: "json option \<Rightarrow> int option" where
  "to_number None = None"
| "to_number (Some JNull) = Some 0"
| "to_number (Some (JBool b)) = Some (if b then 1 else 0)"
| "to_number (Some (JNum n)) = Some n"
| "to_number (Some v) = None"

fun digit :: "nat \<Rightarrow> char" where
  "digit n = (''0123456789'' ! (n mod 10))"

fun decimal :: "nat \<Rightarrow> string" where
  "decimal n = (if n < 10 then [digit n] else decimal (n div 10) @ [digit n])"

text \<open>\<open>v[i]\<close> for an index \<open>i \<ge> 0\<close>; out of range it is \<open>undefined\<close>, as in JavaScript.\<close>

fun js_index :: "json \<Rightarrow> nat \<Rightarrow> json option" where
  "js_index (JArr xs) i = (if i < length xs then Some (xs ! i) else None)"
| "js_index (JStr s) i = (if i < length s then Some (JStr [s ! i]) else None)"
| "js_index (JObj kvs) i = map_of kvs (decimal i)"
| "js_index v i = None"

text \<open>
  \<open>query.trim()\<close> removes white space at both ends. Characters are 8-bit here: tab, line
  feed, vertical tab, form feed, carriage return, space and the no-break space.
\<close>

definition is_space :: "char \<Rightarrow> bool" where
  "is_space c = (c = CHR 0x09 \<or> c = CHR 0x0A \<or> c = CHR 0x0B \<or> c = CHR 0x0C \<or> c = CHR 0x0D
     \<or> c = CHR 0x20 \<or> c = CHR 0xA0)"

definition trim :: "string \<Rightarrow> string" where
  "trim s = rev (dropWhile is_space (rev (dropWhile is_space s)))"

subsection \<open>State\<close>

datatype callback =
    DebounceCb  \<comment> \<open>\<open>() => fetchUsers(target.value)\<close>, set by \<open>onInput\<close>\<close>
  | BlurCb      \<comment> \<open>the closure of \<open>handleBlur\<close>\<close>

record timer =
  tm_id :: nat
  tm_due :: nat
  tm_cb :: callback

datatype stage =
    AwaitFetch  \<comment> \<open>suspended at \<open>await fetch(...)\<close>\<close>
  | AwaitJson   \<comment> \<open>suspended at \<open>await res.json()\<close>\<close>

record request =
  rq_id :: nat
  rq_signal :: nat
  rq_url :: string
  rq_stage :: stage

record state =
  selectedUser :: "json option"
  searchQuery :: string
  suggestions :: json
  isOpen :: bool
  isLoading :: bool
  activeIndex :: int
  isFocused :: bool
  debounceTimer :: "nat option"
  abortCtrl :: "nat option"
  clock :: nat
  timers :: "timer list"
  next_timer :: nat
  next_ctrl :: nat
  aborted :: "nat list"
  requests :: "request list"
  calls :: "string list"
  console :: "jserror list"
  emitted :: "json option list"

text \<open>
  \<open>clock\<close> is the time in milliseconds; \<open>timers\<close> are the pending timeouts in the order they
  were set; \<open>aborted\<close> are the controllers whose \<open>abort()\<close> was called; \<open>requests\<close> are the
  calls of \<open>fetchUsers\<close> suspended at an \<open>await\<close>; \<open>calls\<close> logs the URL of every \<open>fetch\<close>;
  \<open>console\<close> logs \<open>console.error\<close>; \<open>emitted\<close> logs every value that the component
  assigns to the model \<open>selectedUser\<close>, in order. It is a log of the assignments, not of
  the \<open>update:modelValue\<close> events: \<open>defineModel\<close> sends an event only for an assignment
  that changes the value. The host is taken to store each assigned value, so
  \<open>selectedUser\<close> reads back what was assigned; it is \<open>undefined\<close> until then. \<open>suggestions\<close> is declared \<open>ref<User[]>\<close> but is assigned from
  a payload of type \<open>any\<close>, so it holds any value. It is never \<open>null\<close>: every assignment
  is of \<open>[]\<close> or of a truthy value.
\<close>

definition init :: state where
  "init = \<lparr> selectedUser = None, searchQuery = [], suggestions = JArr [], isOpen = False,
     isLoading = False, activeIndex = - 1, isFocused = False, debounceTimer = None,
     abortCtrl = None, clock = 0, timers = [], next_timer = 1, next_ctrl = 0, aborted = [],
     requests = [], calls = [], console = [], emitted = [] \<rparr>"

subsection \<open>Timers\<close>

definition setTimeout :: "callback \<Rightarrow> nat \<Rightarrow> state \<Rightarrow> nat \<times> state" where
  "setTimeout cb delay st =
     (next_timer st,
      st\<lparr> timers := timers st @ [\<lparr> tm_id = next_timer st, tm_due = clock st + delay, tm_cb = cb \<rparr>],
          next_timer := Suc (next_timer st) \<rparr>)"

definition clearTimeout :: "nat \<Rightarrow> state \<Rightarrow> state" where
  "clearTimeout i st = st\<lparr> timers := filter (\<lambda>t. tm_id t \<noteq> i) (timers st) \<rparr>"

subsection \<open>fetchUsers\<close>

definition search_url :: "string \<Rightarrow> string" where
  "search_url query = ''https://apimocker.com/users/search?q='' @ query"

text \<open>The \<open>catch\<close> block followed by the \<open>finally\<close> block.\<close>

definition catch_finally :: "jserror \<Rightarrow> state \<Rightarrow> state" where
  "catch_finally e st =
     (let st1 = (if e \<noteq> AbortError
                 then st\<lparr> console := console st @ [e], suggestions := JArr [] \<rparr>
                 else st)
      in st1\<lparr> isLoading := False \<rparr>)"

text \<open>\<open>data.results || data || []\<close>, for \<open>data\<close> that is not \<open>null\<close>.\<close>

definition normalize :: "json \<Rightarrow> json" where
  "normalize data =
     (if truthy_opt (get_results data) then the (get_results data)
      else if truthy data then data
      else JArr [])"

text \<open>
  The \<open>try\<close> block after \<open>await res.json()\<close> has given \<open>data\<close>, then \<open>finally\<close>. Reading
  \<open>data.results\<close> of \<open>null\<close> throws a TypeError, which the \<open>catch\<close> block receives.
\<close>

definition on_data :: "json \<Rightarrow> state \<Rightarrow> state" where
  "on_data data st =
     (if data = JNull then catch_finally TypeError st
      else
        let st1 = st\<lparr> suggestions := normalize data \<rparr>;
            st2 = (if truthy_opt (js_length (suggestions st1))
                   then st1\<lparr> isOpen := True, activeIndex := - 1 \<rparr>
                   else st1\<lparr> isOpen := False \<rparr>)
        in st2\<lparr> isLoading := False \<rparr>)"

text \<open>
  The synchronous part of \<open>fetchUsers(query)\<close>, up to the first \<open>await\<close>: the call of
  \<open>fetch\<close> is logged and the suspended call is recorded with its signal.
\<close>

definition fetchUsers :: "string \<Rightarrow> state \<Rightarrow> state" where
  "fetchUsers query st =
     (let st1 = (case abortCtrl st of None \<Rightarrow> st | Some c \<Rightarrow> st\<lparr> aborted := c # aborted st \<rparr>);
          c' = next_ctrl st1;
          st2 = st1\<lparr> abortCtrl := Some c', next_ctrl := Suc c' \<rparr>
      in if trim query = []
         then st2\<lparr> suggestions := JArr [], isOpen := False \<rparr>
         else st2\<lparr> isLoading := True,
                   calls := calls st2 @ [search_url query],
                   requests := requests st2 @
                     [\<lparr> rq_id = length (calls st2), rq_signal = c',
                        rq_url = search_url query, rq_stage = AwaitFetch \<rparr>] \<rparr>)"

text \<open>
  What the transport delivers to a suspended call. When the signal of the call has been
  aborted, \<open>fetch\<close> and \<open>res.json()\<close> reject with an AbortError whatever the network did
  (the Fetch standard); otherwise the arrival decides.
\<close>

datatype arrival =
    FetchRejected       \<comment> \<open>\<open>fetch\<close> rejects: network failure, a TypeError\<close>
  | Headers bool        \<comment> \<open>\<open>fetch\<close> fulfils with a response; the flag is \<open>res.ok\<close>\<close>
  | BodyFailed          \<comment> \<open>\<open>res.json()\<close> rejects: the body could not be read, a TypeError\<close>
  | BodyMalformed       \<comment> \<open>\<open>res.json()\<close> rejects: the body is not JSON, a SyntaxError\<close>
  | BodyJson json       \<comment> \<open>\<open>res.json()\<close> fulfils with the parsed payload\<close>

definition find_request :: "nat \<Rightarrow> state \<Rightarrow> request option" where
  "find_request rid st = find (\<lambda>r. rq_id r = rid) (requests st)"

definition drop_request :: "nat \<Rightarrow> state \<Rightarrow> state" where
  "drop_request rid st = st\<lparr> requests := filter (\<lambda>r. rq_id r \<noteq> rid) (requests st) \<rparr>"

definition set_stage :: "nat \<Rightarrow> stage \<Rightarrow> state \<Rightarrow> state" where
  "set_stage rid sg st =
     st\<lparr> requests := map (\<lambda>r. if rq_id r = rid then r\<lparr> rq_stage := sg \<rparr> else r) (requests st) \<rparr>"

definition arrive :: "nat \<Rightarrow> arrival \<Rightarrow> state \<Rightarrow> state" where
  "arrive rid a st =
     (case find_request rid st of
        None \<Rightarrow> st
      | Some r \<Rightarrow>
          if rq_signal r \<in> set (aborted st) then catch_finally AbortError (drop_request rid st)
          else
            (case (rq_stage r, a) of
               (AwaitFetch, FetchRejected) \<Rightarrow> catch_finally TypeError (drop_request rid st)
             | (AwaitFetch, Headers ok) \<Rightarrow>
                 if \<not> ok then catch_finally ApiError (drop_request rid st)
                 else set_stage rid AwaitJson st
             | (AwaitJson, BodyFailed) \<Rightarrow> catch_finally TypeError (drop_request rid st)
             | (AwaitJson, BodyMalformed) \<Rightarrow> catch_finally SyntaxError (drop_request rid st)
             | (AwaitJson, BodyJson data) \<Rightarrow> on_data data (drop_request rid st)
             | _ \<Rightarrow> st))"

text \<open>
  An arrival for a call that is not suspended, or one that does not fit the \<open>await\<close> the
  call is suspended at (a payload before the response), does not happen; it changes
  nothing. The two \<open>await\<close>s are kept apart because a call can be aborted between them.
\<close>

subsection \<open>Handlers\<close>

text \<open>
  \<open>if (debounceTimer)\<close>: a timer id is a positive number, so the test is whether a timer
  was ever set.
\<close>

definition onInput :: "string \<Rightarrow> state \<Rightarrow> state" where
  "onInput text st =
     (let st1 = st\<lparr> searchQuery := text \<rparr>;
          st2 = (case debounceTimer st1 of None \<Rightarrow> st1 | Some i \<Rightarrow> clearTimeout i st1);
          (i, st3) = setTimeout DebounceCb 300 st2
      in st3\<lparr> debounceTimer := Some i \<rparr>)"

definition handleFocus :: "state \<Rightarrow> state" where
  "handleFocus st =
     (let st1 = st\<lparr> isFocused := True \<rparr>
      in if searchQuery st1 \<noteq> [] \<and> truthy_opt (js_length (suggestions st1))
         then st1\<lparr> isOpen := True \<rparr> else st1)"

definition handleBlur :: "state \<Rightarrow> state" where
  "handleBlur st = snd (setTimeout BlurCb 200 st)"

definition selectItem :: "json option \<Rightarrow> state \<Rightarrow> state" where
  "selectItem user st =
     st\<lparr> selectedUser := user, emitted := emitted st @ [user], searchQuery := [],
         suggestions := JArr [], isOpen := False \<rparr>"

text \<open>
  \<open>clearSelection\<close> is the handler of the button of the selected tag, which exists only
  while \<open>selectedUser\<close> is truthy. Its \<open>nextTick\<close> callback focuses the input, which the
  re-rendering has enabled again, so \<open>handleFocus\<close> runs.
\<close>

definition clearSelection :: "state \<Rightarrow> state" where
  "clearSelection st =
     (if truthy_opt (selectedUser st)
      then handleFocus (st\<lparr> selectedUser := Some JNull, emitted := emitted st @ [Some JNull] \<rparr>)
      else st)"

datatype key = ArrowDown | ArrowUp | Enter | Escape | OtherKey

text \<open>
  \<open>activeIndex.value < suggestions.value.length - 1\<close>; a comparison with \<open>NaN\<close> is false.
\<close>

definition below_last :: "int \<Rightarrow> json \<Rightarrow> bool" where
  "below_last i v = (case to_number (js_length v) of None \<Rightarrow> False | Some n \<Rightarrow> i < n - 1)"

text \<open>
  Escape calls \<open>blur()\<close> on the input, which has the focus since it received the key, so
  its blur event runs \<open>handleBlur\<close>.
\<close>

definition onKeydown :: "key \<Rightarrow> state \<Rightarrow> state" where
  "onKeydown k st =
     (if \<not> isOpen st then st
      else if k = ArrowDown then
        (if below_last (activeIndex st) (suggestions st)
         then st\<lparr> activeIndex := activeIndex st + 1 \<rparr> else st)
      else if k = ArrowUp then
        (if activeIndex st > 0 then st\<lparr> activeIndex := activeIndex st - 1 \<rparr> else st)
      else if k = Enter \<and> activeIndex st \<ge> 0 then
        selectItem (js_index (suggestions st) (nat (activeIndex st))) st
      else if k = Escape then handleBlur (st\<lparr> isOpen := False \<rparr>)
      else st)"

definition onUnmounted :: "state \<Rightarrow> state" where
  "onUnmounted st = (case debounceTimer st of None \<Rightarrow> st | Some i \<Rightarrow> clearTimeout i st)"

text \<open>
  The list items of the template, rendered while \<open>isOpen && !selectedUser\<close> by
  \<open>v-for="(u, idx) in suggestions"\<close>. Vue renders one item per element of an array,
  per character of a string, per number from 1 to \<open>n\<close> for a number \<open>n\<close>, and per own
  property of an object (here in the order of the property list); nothing for any other
  value. For a negative number the render function throws, which is not represented: the
  dropdown is not open on a number in any reachable state (\<open>open_inv\<close> below).
\<close>

definition rendered :: "state \<Rightarrow> json list" where
  "rendered st =
     (if isOpen st \<and> \<not> truthy_opt (selectedUser st)
      then (case suggestions st of
              JArr xs \<Rightarrow> xs
            | JStr s \<Rightarrow> map (\<lambda>c. JStr [c]) s
            | JNum n \<Rightarrow> map (\<lambda>i. JNum (int i + 1)) [0..<nat n]
            | JObj kvs \<Rightarrow> map snd kvs
            | _ \<Rightarrow> [])
      else [])"

text \<open>
  The second alias of the \<open>v-for\<close> is the position of the item, except for an object,
  where Vue binds it to the name of the property.
\<close>

fun idx_is_position :: "json \<Rightarrow> bool" where
  "idx_is_position (JObj kvs) = False"
| "idx_is_position v = True"

text \<open>
  \<open>@mousedown.prevent="selectItem(u)"\<close> and \<open>@mouseenter="activeIndex = idx"\<close>. On an item
  of an object the page assigns the name of the property, a string, to \<open>activeIndex\<close>.
  The active index of this model is an integer and cannot hold it, so that one event is
  outside the model (it is given as changing nothing), and what is stated below about
  the active index in reachable states is stated for runs whose payloads are lists, in
  which the suggestions are never an object.
\<close>

definition mouseDown :: "nat \<Rightarrow> state \<Rightarrow> state" where
  "mouseDown idx st =
     (if idx < length (rendered st) then selectItem (Some (rendered st ! idx)) st else st)"

definition mouseEnter :: "nat \<Rightarrow> state \<Rightarrow> state" where
  "mouseEnter idx st =
     (if idx < length (rendered st) \<and> idx_is_position (suggestions st)
      then st\<lparr> activeIndex := int idx \<rparr> else st)"

subsection \<open>The event loop\<close>

text \<open>
  A timer that fires is removed from the queue and its callback runs. The debounce
  callback reads \<open>target.value\<close> when it runs: the value of the input element, which is
  the text of the last input event unless the \<open>:value="searchQuery"\<close> binding has
  overwritten it since, so it is \<open>searchQuery\<close> at that moment.
\<close>

definition fire :: "timer \<Rightarrow> state \<Rightarrow> state" where
  "fire t st =
     (let st1 = st\<lparr> timers := filter (\<lambda>u. tm_id u \<noteq> tm_id t) (timers st) \<rparr>
      in case tm_cb t of
           DebounceCb \<Rightarrow> fetchUsers (searchQuery st1) st1
         | BlurCb \<Rightarrow> st1\<lparr> isFocused := False, isOpen := False \<rparr>)"

text \<open>
  \<open>advance d\<close> lets \<open>d\<close> milliseconds pass: the timers due by then fire at their due time,
  earliest first and in the order they were set when due together. No callback sets or
  clears a timer, so the timers that fire are known at the start.
\<close>

definition due_timers :: "nat \<Rightarrow> state \<Rightarrow> timer list" where
  "due_timers target st = sort_key tm_due (filter (\<lambda>t. tm_due t \<le> target) (timers st))"

definition advance :: "nat \<Rightarrow> state \<Rightarrow> state" where
  "advance d st =
     (foldl (\<lambda>s t. fire t s) st (due_timers (clock st + d) st))\<lparr> clock := clock st + d \<rparr>"

datatype event =
    Input string          \<comment> \<open>\<open>@input\<close>, with the new value of the input element\<close>
  | Keydown key           \<comment> \<open>\<open>@keydown\<close>\<close>
  | Focus                 \<comment> \<open>\<open>@focus\<close>\<close>
  | Blur                  \<comment> \<open>\<open>@blur\<close>\<close>
  | MouseDown nat         \<comment> \<open>\<open>@mousedown\<close> on the list item at this position\<close>
  | MouseEnter nat        \<comment> \<open>\<open>@mouseenter\<close> on the list item at this position\<close>
  | ClearSelection        \<comment> \<open>\<open>@click\<close> on the button of the selected tag\<close>
  | HostSet "json option" \<comment> \<open>the host writes the bound value\<close>
  | Advance nat           \<comment> \<open>this many milliseconds pass\<close>
  | Arrive nat arrival    \<comment> \<open>the transport delivers to the suspended call with this id\<close>
  | Unmount               \<comment> \<open>\<open>onUnmounted\<close>\<close>

fun step :: "event \<Rightarrow> state \<Rightarrow> state" where
  "step (Input text) st = onInput text st"
| "step (Keydown k) st = onKeydown k st"
| "step Focus st = handleFocus st"
| "step Blur st = handleBlur st"
| "step (MouseDown idx) st = mouseDown idx st"
| "step (MouseEnter idx) st = mouseEnter idx st"
| "step ClearSelection st = clearSelection st"
| "step (HostSet v) st = st\<lparr> selectedUser := v \<rparr>"
| "step (Advance d) st = advance d st"
| "step (Arrive rid a) st = arrive rid a st"
| "step Unmount st = onUnmounted st"

text \<open>
  The reachable states are those of \<open>run evs init\<close>. Events are not filtered by what the
  page allows (no input event reaches the input while it is disabled by a selection), so
  the reachable states of the model include those of the page. An aborted call stays
  suspended until an arrival for it is delivered, which the platform does at the end of
  the task that aborted it; the model lets it happen at any later time.
\<close>

definition run :: "event list \<Rightarrow> state \<Rightarrow> state" where
  "run evs st = foldl (\<lambda>s e. step e s) st evs"

subsection \<open>Invariants and auxiliary notions\<close>

text \<open>
  Every suspended call either has an aborted signal, or holds the signal of the current
  controller and is the call issued last.
\<close>

definition fetch_inv :: "state \<Rightarrow> bool" where
  "fetch_inv st =
     (\<forall>r\<in>set (requests st).
        rq_id r < length (calls st) \<and>
        (rq_signal r \<in> set (aborted st) \<or>
         (abortCtrl st = Some (rq_signal r) \<and> Suc (rq_id r) = length (calls st))))"

text \<open>
  Timer ids are fresh and distinct, and a pending debounce timer is the one that
  \<open>debounceTimer\<close> holds.
\<close>

definition timer_inv :: "state \<Rightarrow> bool" where
  "timer_inv st =
     (distinct (map tm_id (timers st)) \<and>
      (\<forall>t\<in>set (timers st).
         tm_id t < next_timer st \<and> (tm_cb t = DebounceCb \<longrightarrow> debounceTimer st = Some (tm_id t))))"

fun index_fits :: "json \<Rightarrow> int \<Rightarrow> bool" where
  "index_fits (JArr xs) i = (xs = [] \<or> i < int (length xs))"
| "index_fits v i = True"

definition index_inv :: "state \<Rightarrow> bool" where
  "index_inv st = (- 1 \<le> activeIndex st \<and> index_fits (suggestions st) (activeIndex st))"

text \<open>
  A payload that keeps to the contract of the lookup service: a list, or a list under
  \<open>results\<close> (or what the code turns into the empty list). A run of such payloads never
  makes the suggestions anything but a list.
\<close>

fun is_list :: "json \<Rightarrow> bool" where
  "is_list (JArr xs) = True"
| "is_list v = False"

fun list_payload :: "event \<Rightarrow> bool" where
  "list_payload (Arrive rid (BodyJson data)) = is_list (normalize data)"
| "list_payload e = True"

text \<open>An open dropdown has suggestions with a truthy length, or the empty list.\<close>

definition open_inv :: "state \<Rightarrow> bool" where
  "open_inv st =
     (isOpen st \<longrightarrow> truthy_opt (js_length (suggestions st)) \<or> suggestions st = JArr [])"

text \<open>The three fields of the suggestion list that a response may change.\<close>

definition visible :: "state \<Rightarrow> json \<times> bool \<times> int" where
  "visible st = (suggestions st, isOpen st, activeIndex st)"

text \<open>The calls of \<open>fetch\<close> that one run of \<open>fetchUsers(q)\<close> makes.\<close>

definition new_calls :: "string \<Rightarrow> string list" where
  "new_calls q = (if trim q = [] then [] else [search_url q])"

definition debounce_timers :: "state \<Rightarrow> timer list" where
  "debounce_timers st = filter (\<lambda>t. tm_cb t = DebounceCb) (timers st)"

text \<open>Keystrokes, each followed by the time that passes before the next one.\<close>

definition burst :: "(string \<times> nat) list \<Rightarrow> event list" where
  "burst ks = concat (map (\<lambda>(q, gap). [Input q, Advance gap]) ks)"

definition all_aborted :: "state \<Rightarrow> bool" where
  "all_aborted st = (\<forall>r\<in>set (requests st). rq_signal r \<in> set (aborted st))"

text \<open>The suggestion list is empty and the dropdown is closed.\<close>

definition cleared :: "state \<Rightarrow> bool" where
  "cleared st = (suggestions st = JArr [] \<and> \<not> isOpen st)"

text \<open>An input event, the only event that restarts the debounce timer.\<close>

fun is_input :: "event \<Rightarrow> bool" where
  "is_input (Input q) = True"
| "is_input e = False"

text \<open>
  The state after the empty query has been searched: nothing to show, and every
  suspended call aborted.
\<close>

definition settled :: "state \<Rightarrow> bool" where
  "settled st = (searchQuery st = [] \<and> cleared st \<and> all_aborted st \<and> fetch_inv st)"

text \<open>The candidates of the scenario of the specification.\<close>

definition alice :: json where
  "alice = JObj [(''id'', JNum 1), (''name'', JStr ''Alice'')]"

definition alan :: json where
  "alan = JObj [(''id'', JNum 2), (''name'', JStr ''Alan'')]"

section \<open>Basic facts\<close>

lemmas handler_defs = onInput_def setTimeout_def clearTimeout_def handleFocus_def handleBlur_def
  selectItem_def clearSelection_def onKeydown_def below_last_def onUnmounted_def rendered_def
  mouseDown_def mouseEnter_def

lemmas fetch_defs = fetchUsers_def arrive_def find_request_def drop_request_def set_stage_def
  on_data_def normalize_def catch_finally_def

lemmas loop_defs = run_def advance_def due_timers_def fire_def

lemmas eval_defs = loop_defs handler_defs fetch_defs trim_def is_space_def init_def

lemma run_Nil [simp]: "run [] st = st"
  by (simp add: run_def)

lemma run_Cons [simp]: "run (e # evs) st = run evs (step e st)"
  by (simp add: run_def)

lemma run_append: "run (xs @ ys) st = run ys (run xs st)"
  by (simp add: run_def)

lemma foldl_fire_inv:
  assumes "\<And>s u. I s \<Longrightarrow> I (fire u s)" and "I st"
  shows "I (foldl (\<lambda>s u. fire u s) st ts)"
  using assms(2) by (induction ts arbitrary: st) (simp_all add: assms(1))

text \<open>What is assigned to the suggestions is truthy, so it is not \<open>null\<close>.\<close>

lemma normalize_truthy: "truthy (normalize data)"
  by (cases "get_results data") (auto simp: normalize_def)

lemma find_request_Some:
  "find_request rid st = Some r \<Longrightarrow> r \<in> set (requests st) \<and> rq_id r = rid"
  by (auto simp: find_request_def find_Some_iff)

section \<open>The request invariant\<close>

lemma fetch_inv_init: "fetch_inv init"
  by (simp add: fetch_inv_def init_def)

lemma fetch_inv_fetchUsers: "fetch_inv st \<Longrightarrow> fetch_inv (fetchUsers q st)"
  by (auto simp: fetch_inv_def fetchUsers_def Let_def split: option.splits)

lemma fetch_inv_fire: "fetch_inv st \<Longrightarrow> fetch_inv (fire t st)"
proof -
  assume a: "fetch_inv st"
  have "fetch_inv (st\<lparr> timers := filter (\<lambda>u. tm_id u \<noteq> tm_id t) (timers st) \<rparr>)"
    using a by (simp add: fetch_inv_def)
  then show ?thesis
    by (cases "tm_cb t") (simp_all add: fire_def fetch_inv_fetchUsers, simp add: fetch_inv_def)
qed

lemma fetch_inv_advance: "fetch_inv st \<Longrightarrow> fetch_inv (advance d st)"
proof -
  assume a: "fetch_inv st"
  have "fetch_inv (foldl (\<lambda>s u. fire u s) st (due_timers (clock st + d) st))"
    by (rule foldl_fire_inv [where I = fetch_inv]) (simp_all add: fetch_inv_fire a)
  then show ?thesis by (simp add: advance_def fetch_inv_def)
qed

lemma fetch_inv_arrive: "fetch_inv st \<Longrightarrow> fetch_inv (arrive rid a st)"
  by (auto simp: fetch_inv_def arrive_def drop_request_def set_stage_def on_data_def
      catch_finally_def Let_def split: option.splits stage.splits arrival.splits)

lemma fetch_inv_step:
  assumes "fetch_inv st"
  shows "fetch_inv (step e st)"
proof (cases e)
  case (Advance d) with assms show ?thesis by (simp add: fetch_inv_advance)
next
  case (Arrive rid a) with assms show ?thesis by (simp add: fetch_inv_arrive)
qed (use assms in \<open>auto simp: fetch_inv_def handler_defs Let_def split: option.splits\<close>)

lemma fetch_inv_run: "fetch_inv st \<Longrightarrow> fetch_inv (run evs st)"
  by (induction evs arbitrary: st) (simp_all add: fetch_inv_step)

lemma arrive_aborted:
  assumes "\<forall>r\<in>set (requests st). rq_id r = rid \<longrightarrow> rq_signal r \<in> set (aborted st)"
  shows "visible (arrive rid a st) = visible st"
proof (cases "find_request rid st")
  case None
  then show ?thesis by (simp add: arrive_def)
next
  case (Some r)
  with assms have "rq_signal r \<in> set (aborted st)"
    using find_request_Some by blast
  with Some show ?thesis
    by (simp add: arrive_def catch_finally_def drop_request_def visible_def)
qed

lemma stale_is_aborted:
  assumes "fetch_inv st" and "Suc rid \<noteq> length (calls st)"
  shows "\<forall>r\<in>set (requests st). rq_id r = rid \<longrightarrow> rq_signal r \<in> set (aborted st)"
  using assms by (auto simp: fetch_inv_def)

section \<open>The index invariant\<close>

lemma index_inv_fetchUsers: "index_inv st \<Longrightarrow> index_inv (fetchUsers q st)"
  by (auto simp: index_inv_def fetchUsers_def Let_def split: option.splits json.splits)

lemma index_inv_fire: "index_inv st \<Longrightarrow> index_inv (fire t st)"
proof -
  assume a: "index_inv st"
  have "index_inv (st\<lparr> timers := filter (\<lambda>u. tm_id u \<noteq> tm_id t) (timers st) \<rparr>)"
    using a by (simp add: index_inv_def)
  then show ?thesis
    by (cases "tm_cb t") (simp_all add: fire_def index_inv_fetchUsers, simp add: index_inv_def)
qed

lemma index_inv_advance: "index_inv st \<Longrightarrow> index_inv (advance d st)"
proof -
  assume a: "index_inv st"
  have "index_inv (foldl (\<lambda>s u. fire u s) st (due_timers (clock st + d) st))"
    by (rule foldl_fire_inv [where I = index_inv]) (simp_all add: index_inv_fire a)
  then show ?thesis by (simp add: advance_def index_inv_def)
qed

lemma index_inv_catch_finally: "index_inv st \<Longrightarrow> index_inv (catch_finally e st)"
  by (simp add: index_inv_def catch_finally_def Let_def)

lemma index_fits_minus_one: "index_fits v (- 1)"
  by (cases v) auto

lemma index_fits_no_length: "\<not> truthy_opt (js_length v) \<Longrightarrow> index_fits v i"
  by (cases v) auto

lemma index_fits_next: "below_last i v \<Longrightarrow> index_fits v (i + 1)"
  by (cases v) (auto simp: below_last_def)

lemma index_fits_previous: "index_fits v i \<Longrightarrow> index_fits v (i - 1)"
  by (cases v) auto

lemma index_inv_on_data: "index_inv st \<Longrightarrow> index_inv (on_data data st)"
  by (auto simp: index_inv_def on_data_def catch_finally_def Let_def index_fits_minus_one
      index_fits_no_length)

lemma index_inv_requests [simp]: "index_inv (st\<lparr> requests := rs \<rparr>) = index_inv st"
  by (simp add: index_inv_def)

lemma index_inv_arrive: "index_inv st \<Longrightarrow> index_inv (arrive rid a st)"
  by (auto simp: arrive_def drop_request_def set_stage_def index_inv_catch_finally
      index_inv_on_data split: option.splits stage.splits arrival.splits)

lemma index_inv_onKeydown: "index_inv st \<Longrightarrow> index_inv (onKeydown k st)"
  by (cases k)
    (auto simp: index_inv_def onKeydown_def selectItem_def handleBlur_def
      setTimeout_def index_fits_next index_fits_previous)

lemma index_inv_step:
  assumes "index_inv st"
  shows "index_inv (step e st)"
proof (cases e)
  case (Advance d) with assms show ?thesis by (simp add: index_inv_advance)
next
  case (Arrive rid a) with assms show ?thesis by (simp add: index_inv_arrive)
next
  case (Keydown k) with assms show ?thesis by (simp add: index_inv_onKeydown)
qed (use assms in \<open>auto simp: index_inv_def onInput_def setTimeout_def clearTimeout_def handleFocus_def
      handleBlur_def selectItem_def clearSelection_def onUnmounted_def rendered_def
      mouseDown_def mouseEnter_def Let_def split: option.splits json.splits if_splits\<close>)

lemma index_inv_run: "index_inv st \<Longrightarrow> index_inv (run evs st)"
  by (induction evs arbitrary: st) (simp_all add: index_inv_step)

lemma index_inv_init: "index_inv init"
  by (simp add: index_inv_def init_def)

section \<open>The timer invariant\<close>

lemma timer_inv_fetchUsers: "timer_inv st \<Longrightarrow> timer_inv (fetchUsers q st)"
  by (auto simp: timer_inv_def fetchUsers_def Let_def split: option.splits)

lemma timer_inv_filter:
  "timer_inv st \<Longrightarrow> timer_inv (st\<lparr> timers := filter P (timers st) \<rparr>)"
  by (auto simp: timer_inv_def distinct_map_filter)

lemma timer_inv_fire: "timer_inv st \<Longrightarrow> timer_inv (fire t st)"
proof -
  assume a: "timer_inv st"
  have b: "timer_inv (st\<lparr> timers := filter (\<lambda>u. tm_id u \<noteq> tm_id t) (timers st) \<rparr>)"
    using a by (rule timer_inv_filter)
  show ?thesis
  proof (cases "tm_cb t")
    case DebounceCb
    then show ?thesis using timer_inv_fetchUsers [OF b] by (simp add: fire_def)
  next
    case BlurCb
    then show ?thesis using b by (simp add: fire_def timer_inv_def)
  qed
qed

lemma timer_inv_advance: "timer_inv st \<Longrightarrow> timer_inv (advance d st)"
proof -
  assume a: "timer_inv st"
  have "timer_inv (foldl (\<lambda>s u. fire u s) st (due_timers (clock st + d) st))"
    by (rule foldl_fire_inv [where I = timer_inv]) (simp_all add: timer_inv_fire a)
  then show ?thesis by (simp add: advance_def timer_inv_def)
qed

lemma timer_inv_arrive: "timer_inv st \<Longrightarrow> timer_inv (arrive rid a st)"
  by (auto simp: timer_inv_def arrive_def drop_request_def set_stage_def on_data_def
      catch_finally_def Let_def split: option.splits stage.splits arrival.splits)

lemma timer_inv_setTimeout:
  "timer_inv st \<Longrightarrow> cb = BlurCb \<Longrightarrow> timer_inv (snd (setTimeout cb d st))"
  by (fastforce simp: timer_inv_def setTimeout_def)

lemma timer_inv_onInput: "timer_inv st \<Longrightarrow> timer_inv (onInput text st)"
  by (fastforce simp: timer_inv_def onInput_def setTimeout_def clearTimeout_def Let_def
      distinct_map_filter split: option.splits)

lemma timer_inv_onKeydown: "timer_inv st \<Longrightarrow> timer_inv (onKeydown k st)"
  by (cases k)
    (fastforce simp: timer_inv_def onKeydown_def selectItem_def handleBlur_def setTimeout_def)+

lemma timer_inv_step:
  assumes "timer_inv st"
  shows "timer_inv (step e st)"
proof (cases e)
  case (Advance d) with assms show ?thesis by (simp add: timer_inv_advance)
next
  case (Arrive rid a) with assms show ?thesis by (simp add: timer_inv_arrive)
next
  case (Keydown k) with assms show ?thesis by (simp add: timer_inv_onKeydown)
next
  case (Input tx) with assms show ?thesis by (simp add: timer_inv_onInput)
next
  case Blur with assms show ?thesis
    by (simp add: handleBlur_def timer_inv_setTimeout)
next
  case Unmount with assms show ?thesis
    by (auto simp: onUnmounted_def clearTimeout_def timer_inv_filter split: option.splits)
qed (use assms in \<open>auto simp: timer_inv_def handleFocus_def selectItem_def clearSelection_def
      mouseDown_def mouseEnter_def Let_def split: option.splits\<close>)

lemma timer_inv_run: "timer_inv st \<Longrightarrow> timer_inv (run evs st)"
  by (induction evs arbitrary: st) (simp_all add: timer_inv_step)

lemma timer_inv_init: "timer_inv init"
  by (simp add: timer_inv_def init_def)

section \<open>Timers that fire\<close>

lemma searchQuery_fire [simp]: "searchQuery (fire t st) = searchQuery st"
  by (cases "tm_cb t") (simp_all add: fire_def fetchUsers_def Let_def split: option.splits)

lemma searchQuery_foldl_fire [simp]:
  "searchQuery (foldl (\<lambda>s u. fire u s) st ts) = searchQuery st"
  by (induction ts arbitrary: st) simp_all

lemma calls_fire:
  "calls (fire t st) = calls st @ (if tm_cb t = DebounceCb then new_calls (searchQuery st) else [])"
  by (cases "tm_cb t") (simp_all add: fire_def fetchUsers_def new_calls_def Let_def split: option.splits)

lemma calls_foldl_fire:
  "calls (foldl (\<lambda>s u. fire u s) st ts) =
     calls st @ concat (map (\<lambda>_. new_calls (searchQuery st)) (filter (\<lambda>t. tm_cb t = DebounceCb) ts))"
  by (induction ts arbitrary: st) (simp_all add: calls_fire)

lemma debounce_due_timers:
  "filter (\<lambda>t. tm_cb t = DebounceCb) (due_timers target st) =
     sort_key tm_due (filter (\<lambda>t. tm_due t \<le> target) (debounce_timers st))"
  by (simp add: due_timers_def debounce_timers_def filter_sort conj_commute)

lemma calls_advance:
  "calls (advance d st) =
     calls st @ concat (map (\<lambda>_. new_calls (searchQuery st))
       (filter (\<lambda>t. tm_due t \<le> clock st + d) (debounce_timers st)))"
proof -
  have "length (sort_key tm_due (filter (\<lambda>t. tm_due t \<le> clock st + d) (debounce_timers st)))
      = length (filter (\<lambda>t. tm_due t \<le> clock st + d) (debounce_timers st))"
    by simp
  then have "map (\<lambda>_. new_calls (searchQuery st))
        (sort_key tm_due (filter (\<lambda>t. tm_due t \<le> clock st + d) (debounce_timers st)))
      = map (\<lambda>_. new_calls (searchQuery st))
        (filter (\<lambda>t. tm_due t \<le> clock st + d) (debounce_timers st))"
    by (simp add: map_replicate_const)
  then show ?thesis
    by (simp add: advance_def calls_foldl_fire debounce_due_timers)
qed

lemma searchQuery_advance [simp]: "searchQuery (advance d st) = searchQuery st"
  by (simp add: advance_def)

lemma clock_advance [simp]: "clock (advance d st) = clock st + d"
  by (simp add: advance_def)

lemma onInput_fields:
  "suggestions (onInput q st) = suggestions st"
  "isOpen (onInput q st) = isOpen st"
  "activeIndex (onInput q st) = activeIndex st"
  "calls (onInput q st) = calls st"
  "requests (onInput q st) = requests st"
  "aborted (onInput q st) = aborted st"
  "clock (onInput q st) = clock st"
  "searchQuery (onInput q st) = q"
  by (simp_all add: onInput_def setTimeout_def clearTimeout_def Let_def split: option.splits)

lemma onInput_sets_timer:
  "\<exists>t\<in>set (timers (onInput q st)). tm_cb t = DebounceCb \<and> tm_due t = clock st + 300 \<and>
     debounceTimer (onInput q st) = Some (tm_id t)"
  by (simp add: onInput_def setTimeout_def clearTimeout_def Let_def split: option.splits)

lemma onInput_debounce_timers:
  assumes "timer_inv st"
  shows "\<exists>t. debounce_timers (onInput q st) = [t] \<and> tm_due t = clock st + 300"
proof -
  have "filter (\<lambda>t. tm_cb t = DebounceCb) (filter (\<lambda>t. tm_id t \<noteq> i) (timers st)) = []"
    if "debounceTimer st = Some i" for i
    using assms that by (auto simp: timer_inv_def filter_empty_conv)
  moreover have "filter (\<lambda>t. tm_cb t = DebounceCb) (timers st) = []"
    if "debounceTimer st = None"
    using assms that by (auto simp: timer_inv_def filter_empty_conv)
  ultimately show ?thesis
    by (simp add: debounce_timers_def onInput_def setTimeout_def clearTimeout_def Let_def
        split: option.splits)
qed

lemma foldl_fire_establish:
  assumes inv: "\<And>s u. I s \<Longrightarrow> I (fire u s)"
    and est: "\<And>s u. I s \<Longrightarrow> tm_cb u = DebounceCb \<Longrightarrow> P (fire u s)"
    and pres: "\<And>s u. I s \<Longrightarrow> P s \<Longrightarrow> P (fire u s)"
    and "I st" and "t \<in> set ts" and "tm_cb t = DebounceCb"
  shows "P (foldl (\<lambda>s u. fire u s) st ts)"
  using assms(4,5)
proof (induction ts arbitrary: st rule: rev_induct)
  case Nil
  then show ?case by simp
next
  case (snoc u us)
  have I: "I (foldl (\<lambda>s u. fire u s) st us)"
    using foldl_fire_inv [of I, OF inv snoc.prems(1)] .
  show ?case
  proof (cases "tm_cb u = DebounceCb")
    case True
    then show ?thesis using est [OF I] by simp
  next
    case False
    with snoc.prems(2) assms(6) have "t \<in> set us" by auto
    from snoc.IH [OF snoc.prems(1) this] pres [OF I] show ?thesis by simp
  qed
qed

lemma new_timer_is_due:
  "\<exists>t\<in>set (due_timers (clock st + 300) (onInput q st)). tm_cb t = DebounceCb"
  using onInput_sets_timer [of q st] by (auto simp: due_timers_def onInput_fields)

lemma cleared_fire_blank:
  assumes "searchQuery st = []"
  shows "tm_cb u = DebounceCb \<Longrightarrow> cleared (fire u st)"
    and "cleared st \<Longrightarrow> cleared (fire u st)"
  using assms
  by (cases "tm_cb u"; simp add: cleared_def fire_def fetchUsers_def trim_def Let_def
      split: option.splits)+

lemma advance_blank_cleared:
  assumes "searchQuery st = []"
    and "\<exists>t\<in>set (due_timers (clock st + d) st). tm_cb t = DebounceCb"
  shows "cleared (advance d st)"
proof -
  from assms(2) obtain t where t: "t \<in> set (due_timers (clock st + d) st)" "tm_cb t = DebounceCb"
    by blast
  have "cleared (foldl (\<lambda>s u. fire u s) st (due_timers (clock st + d) st))"
    by (rule foldl_fire_establish [where I = "\<lambda>s. searchQuery s = []", OF _ _ _ assms(1) t])
      (simp_all add: cleared_fire_blank)
  then show ?thesis by (simp add: advance_def cleared_def)
qed

lemma new_calls_blank [simp]: "new_calls [] = []"
  by (simp add: new_calls_def trim_def)

lemma requests_fire_blank:
  "searchQuery st = [] \<Longrightarrow> requests (fire u st) = requests st"
  by (cases "tm_cb u") (simp_all add: fire_def fetchUsers_def trim_def Let_def split: option.splits)

lemma all_aborted_fire_blank:
  assumes "searchQuery st = []" and "fetch_inv st"
  shows "tm_cb u = DebounceCb \<Longrightarrow> all_aborted (fire u st)"
    and "all_aborted st \<Longrightarrow> all_aborted (fire u st)"
  using assms
  by (cases "tm_cb u"; fastforce simp: all_aborted_def fetch_inv_def fire_def fetchUsers_def
      trim_def Let_def split: option.splits)+

lemma advance_blank_invalidates:
  assumes "searchQuery st = []" and "fetch_inv st"
    and "\<exists>t\<in>set (due_timers (clock st + d) st). tm_cb t = DebounceCb"
  shows "all_aborted (advance d st) \<and> requests (advance d st) = requests st"
proof -
  from assms(3) obtain t where t: "t \<in> set (due_timers (clock st + d) st)" "tm_cb t = DebounceCb"
    by blast
  let ?I = "\<lambda>s. searchQuery s = [] \<and> fetch_inv s \<and> requests s = requests st"
  have I: "?I st" using assms by simp
  have "all_aborted (foldl (\<lambda>s u. fire u s) st (due_timers (clock st + d) st))"
    by (rule foldl_fire_establish [where I = ?I, OF _ _ _ I t])
      (simp_all add: all_aborted_fire_blank fetch_inv_fire requests_fire_blank)
  moreover have "?I (foldl (\<lambda>s u. fire u s) st (due_timers (clock st + d) st))"
    by (rule foldl_fire_inv [where I = ?I, OF _ I])
      (simp add: fetch_inv_fire requests_fire_blank)
  ultimately show ?thesis by (simp add: advance_def all_aborted_def)
qed

lemma arrive_all_aborted:
  assumes "all_aborted st"
  shows "all_aborted (arrive rid a st) \<and> visible (arrive rid a st) = visible st"
proof -
  have v: "visible (arrive rid a st) = visible st"
    using assms by (intro arrive_aborted) (simp add: all_aborted_def)
  have "all_aborted (arrive rid a st)"
  proof (cases "find_request rid st")
    case None
    then show ?thesis using assms by (simp add: arrive_def)
  next
    case (Some r)
    with assms have "rq_signal r \<in> set (aborted st)"
      using find_request_Some by (fastforce simp: all_aborted_def)
    with Some assms show ?thesis
      by (simp add: arrive_def catch_finally_def drop_request_def all_aborted_def)
  qed
  with v show ?thesis by simp
qed

lemma keystroke_then_wait:
  assumes "timer_inv st"
  shows "calls (advance d (onInput q st)) = calls st @ (if 300 \<le> d then new_calls q else [])"
proof -
  obtain t where t: "debounce_timers (onInput q st) = [t]" "tm_due t = clock st + 300"
    using onInput_debounce_timers [OF assms] by blast
  show ?thesis
    by (simp add: calls_advance t onInput_fields)
qed

lemma burst_quiet:
  assumes "timer_inv st" and "\<forall>(q, gap)\<in>set ks. gap < 300"
  shows "timer_inv (run (burst ks) st) \<and> calls (run (burst ks) st) = calls st"
  using assms
proof (induction ks arbitrary: st)
  case Nil
  then show ?case by (simp add: burst_def)
next
  case (Cons k ks)
  obtain q gap where k: "k = (q, gap)" by (cases k)
  let ?st = "advance gap (onInput q st)"
  have gap: "gap < 300" using Cons.prems(2) k by simp
  have inv: "timer_inv ?st"
    using Cons.prems(1) by (simp add: timer_inv_advance timer_inv_onInput)
  have calls: "calls ?st = calls st"
    using keystroke_then_wait [OF Cons.prems(1), of gap q] gap by simp
  have run: "run (burst (k # ks)) st = run (burst ks) ?st"
    by (simp add: burst_def k)
  from Cons.IH [OF inv] Cons.prems(2) calls run show ?case by simp
qed

section \<open>After the empty query\<close>

lemma settled_fire:
  assumes "settled st"
  shows "settled (fire u st)"
  using assms cleared_fire_blank(2) [of st u] all_aborted_fire_blank(2) [of st u]
    fetch_inv_fire [of st u]
  by (simp add: settled_def)

lemma settled_advance:
  assumes "settled st"
  shows "settled (advance d st)"
proof -
  have "settled (foldl (\<lambda>s u. fire u s) st (due_timers (clock st + d) st))"
    by (rule foldl_fire_inv [where I = settled]) (simp_all add: settled_fire assms)
  then show ?thesis
    by (simp add: advance_def settled_def cleared_def all_aborted_def fetch_inv_def)
qed

lemma searchQuery_arrive [simp]: "searchQuery (arrive rid a st) = searchQuery st"
  by (simp add: arrive_def drop_request_def set_stage_def on_data_def catch_finally_def Let_def
      split: option.splits stage.splits arrival.splits)

lemma settled_arrive:
  assumes "settled st"
  shows "settled (arrive rid a st)"
proof -
  have "all_aborted (arrive rid a st) \<and> visible (arrive rid a st) = visible st"
    using assms by (intro arrive_all_aborted) (simp add: settled_def)
  moreover have "fetch_inv (arrive rid a st)"
    using assms by (simp add: settled_def fetch_inv_arrive)
  ultimately show ?thesis
    using assms by (simp add: settled_def cleared_def visible_def)
qed

lemma settled_fields:
  assumes "settled st"
    and "searchQuery s = searchQuery st" and "suggestions s = suggestions st"
    and "isOpen s = isOpen st" and "requests s = requests st" and "aborted s = aborted st"
    and "calls s = calls st" and "abortCtrl s = abortCtrl st"
  shows "settled s"
  using assms by (simp add: settled_def cleared_def all_aborted_def fetch_inv_def)

lemma closed_onKeydown: "\<not> isOpen st \<Longrightarrow> onKeydown k st = st"
  by (simp add: onKeydown_def)

lemma closed_rendered: "\<not> isOpen st \<Longrightarrow> rendered st = []"
  by (simp add: rendered_def)

lemma settled_handleFocus:
  assumes "settled st"
  shows "settled (handleFocus st)"
proof -
  have "searchQuery st = []" using assms by (simp add: settled_def)
  then have "handleFocus st = st\<lparr> isFocused := True \<rparr>"
    by (simp add: handleFocus_def)
  moreover have "settled (st\<lparr> isFocused := True \<rparr>)"
    by (rule settled_fields [OF assms]) simp_all
  ultimately show ?thesis by simp
qed

lemma settled_step:
  assumes "settled st" and "\<not> is_input e"
  shows "settled (step e st)"
proof (cases e)
  case (Input q) with assms show ?thesis by simp
next
  case (Keydown k) with assms show ?thesis
    by (simp add: closed_onKeydown settled_def cleared_def)
next
  case Focus with assms show ?thesis by (simp add: settled_handleFocus)
next
  case Blur
  have "settled (handleBlur st)"
    by (rule settled_fields [OF assms(1)]) (simp_all add: handleBlur_def setTimeout_def)
  with Blur show ?thesis by simp
next
  case (MouseDown idx) with assms show ?thesis
    by (simp add: mouseDown_def closed_rendered settled_def cleared_def)
next
  case (MouseEnter idx) with assms show ?thesis
    by (simp add: mouseEnter_def closed_rendered settled_def cleared_def)
next
  case ClearSelection
  have "settled (st\<lparr> selectedUser := Some JNull, emitted := emitted st @ [Some JNull] \<rparr>)"
    by (rule settled_fields [OF assms(1)]) simp_all
  then have "settled (clearSelection st)"
    using assms(1) by (simp add: clearSelection_def settled_handleFocus)
  with ClearSelection show ?thesis by simp
next
  case (HostSet v)
  have "settled (st\<lparr> selectedUser := v \<rparr>)"
    by (rule settled_fields [OF assms(1)]) simp_all
  with HostSet show ?thesis by simp
next
  case (Advance d) with assms show ?thesis by (simp add: settled_advance)
next
  case (Arrive rid a) with assms show ?thesis by (simp add: settled_arrive)
next
  case Unmount
  have "settled (onUnmounted st)"
    by (rule settled_fields [OF assms(1)])
      (simp_all add: onUnmounted_def clearTimeout_def split: option.splits)
  with Unmount show ?thesis by simp
qed

lemma settled_run:
  assumes "settled st" and "list_all (\<lambda>e. \<not> is_input e) evs"
  shows "settled (run evs st)"
  using assms by (induction evs arbitrary: st) (simp_all add: settled_step)

section \<open>Arrow keys\<close>

lemma nav_keys_range:
  assumes "suggestions st = JArr xs"
    and "- 1 \<le> activeIndex st \<and> activeIndex st \<le> int (length xs) - 1"
    and "set ks \<subseteq> {ArrowDown, ArrowUp}"
  shows "suggestions (run (map Keydown ks) st) = JArr xs \<and>
         - 1 \<le> activeIndex (run (map Keydown ks) st) \<and>
         activeIndex (run (map Keydown ks) st) \<le> int (length xs) - 1"
  using assms
proof (induction ks arbitrary: st)
  case Nil
  then show ?case by simp
next
  case (Cons k ks)
  have "suggestions (onKeydown k st) = JArr xs \<and>
        - 1 \<le> activeIndex (onKeydown k st) \<and> activeIndex (onKeydown k st) \<le> int (length xs) - 1"
    using Cons.prems by (auto simp: onKeydown_def below_last_def)
  with Cons.IH [of "onKeydown k st"] Cons.prems(3) show ?case by simp
qed

section \<open>Payloads that are lists\<close>

lemma is_list_fire: "is_list (suggestions st) \<Longrightarrow> is_list (suggestions (fire u st))"
  by (cases "tm_cb u") (simp_all add: fire_def fetchUsers_def Let_def split: option.splits)

lemma is_list_advance: "is_list (suggestions st) \<Longrightarrow> is_list (suggestions (advance d st))"
proof -
  assume a: "is_list (suggestions st)"
  have "is_list (suggestions (foldl (\<lambda>s u. fire u s) st (due_timers (clock st + d) st)))"
    by (rule foldl_fire_inv [where I = "\<lambda>s. is_list (suggestions s)"])
      (simp_all add: is_list_fire a)
  then show ?thesis by (simp add: advance_def)
qed

lemma is_list_on_data:
  "is_list (normalize data) \<Longrightarrow> is_list (suggestions (on_data data st))"
  by (simp add: on_data_def catch_finally_def Let_def)

lemma is_list_arrive:
  assumes "is_list (suggestions st)" and "list_payload (Arrive rid a)"
  shows "is_list (suggestions (arrive rid a st))"
  using assms
  by (cases a)
    (simp_all add: arrive_def drop_request_def set_stage_def catch_finally_def is_list_on_data
      split: option.splits stage.splits)

lemma is_list_onKeydown: "is_list (suggestions st) \<Longrightarrow> is_list (suggestions (onKeydown k st))"
  by (simp add: onKeydown_def selectItem_def handleBlur_def setTimeout_def)

lemma is_list_step:
  assumes "is_list (suggestions st)" and "list_payload e"
  shows "is_list (suggestions (step e st))"
proof (cases e)
  case (Advance d) with assms show ?thesis by (simp add: is_list_advance)
next
  case (Arrive rid a) with assms show ?thesis by (simp add: is_list_arrive)
next
  case (Keydown k) with assms show ?thesis by (simp add: is_list_onKeydown)
qed (use assms in \<open>simp_all add: onInput_fields handleFocus_def handleBlur_def setTimeout_def
      mouseDown_def mouseEnter_def selectItem_def clearSelection_def onUnmounted_def
      clearTimeout_def Let_def split: option.splits\<close>)

lemma is_list_run:
  assumes "is_list (suggestions st)" and "list_all list_payload evs"
  shows "is_list (suggestions (run evs st))"
  using assms by (induction evs arbitrary: st) (simp_all add: is_list_step)

section \<open>What an open dropdown shows\<close>

lemma open_inv_fire: "open_inv st \<Longrightarrow> open_inv (fire u st)"
  by (cases "tm_cb u") (simp_all add: open_inv_def fire_def fetchUsers_def Let_def split: option.splits)

lemma open_inv_advance: "open_inv st \<Longrightarrow> open_inv (advance d st)"
proof -
  assume a: "open_inv st"
  have "open_inv (foldl (\<lambda>s u. fire u s) st (due_timers (clock st + d) st))"
    by (rule foldl_fire_inv [where I = open_inv]) (simp_all add: open_inv_fire a)
  then show ?thesis by (simp add: advance_def open_inv_def)
qed

lemma open_inv_arrive: "open_inv st \<Longrightarrow> open_inv (arrive rid a st)"
  by (cases a)
    (simp_all add: open_inv_def arrive_def drop_request_def set_stage_def catch_finally_def
      on_data_def Let_def split: option.splits stage.splits)

lemma open_inv_step:
  assumes "open_inv st"
  shows "open_inv (step e st)"
proof (cases e)
  case (Advance d) with assms show ?thesis by (simp add: open_inv_advance)
next
  case (Arrive rid a) with assms show ?thesis by (simp add: open_inv_arrive)
next
  case (Keydown k) with assms show ?thesis
    by (simp add: open_inv_def onKeydown_def selectItem_def handleBlur_def setTimeout_def)
qed (use assms in \<open>simp_all add: open_inv_def onInput_fields handleFocus_def handleBlur_def
      setTimeout_def mouseDown_def mouseEnter_def selectItem_def clearSelection_def
      onUnmounted_def clearTimeout_def Let_def split: option.splits\<close>)

lemma open_inv_run: "open_inv st \<Longrightarrow> open_inv (run evs st)"
  by (induction evs arbitrary: st) (simp_all add: open_inv_step)

lemma open_inv_init: "open_inv init"
  by (simp add: open_inv_def init_def)

lemma never_open_on_number: "isOpen (run evs init) \<Longrightarrow> suggestions (run evs init) \<noteq> JNum n"
  using open_inv_run [OF open_inv_init, of evs] by (auto simp: open_inv_def)

section \<open>Stale responses\<close>

text \<open>
  C1. If a lookup request A is superseded by a new request B before A resolves, then
  whatever arrives for A later (a response, a payload or a failure) changes neither the
  suggestions, nor the open flag, nor the active index: in every reachable state, an
  arrival for a request that is not the one issued last leaves the three unchanged, and
  so does an arrival for the older of any two requests in flight. Only the result of the
  request issued last can replace the suggestions.
\<close>

theorem stale_result_never_applied:
  "let st = run evs init in
     (Suc rid \<noteq> length (calls st) \<longrightarrow> visible (arrive rid a st) = visible st) \<and>
     (\<forall>A\<in>set (requests st). \<forall>B\<in>set (requests st).
        rq_id A < rq_id B \<longrightarrow> visible (arrive (rq_id A) a st) = visible st)"
proof -
  have inv: "fetch_inv (run evs init)"
    by (simp add: fetch_inv_run fetch_inv_init)
  have one: "visible (arrive rid' a (run evs init)) = visible (run evs init)"
    if "Suc rid' \<noteq> length (calls (run evs init))" for rid'
    using that inv by (intro arrive_aborted stale_is_aborted)
  have two: "Suc (rq_id A) \<noteq> length (calls (run evs init))"
    if "A \<in> set (requests (run evs init))" "B \<in> set (requests (run evs init))"
      "rq_id A < rq_id B" for A B
    using that inv by (fastforce simp: fetch_inv_def)
  show ?thesis
    unfolding Let_def using one two by blast
qed

text \<open>
  The request for \<open>a\<close> has received its response headers when the request for \<open>ab\<close> is
  issued; the payload that arrives for it afterwards is not applied.
\<close>

theorem stale_result_never_applied_witness:
  "Suc 0 \<noteq> length (calls (run [Input ''a'', Advance 300, Arrive 0 (Headers True),
       Input ''ab'', Advance 300] init)) \<and>
   map rq_id (requests (run [Input ''a'', Advance 300, Arrive 0 (Headers True),
       Input ''ab'', Advance 300] init)) = [0, 1] \<and>
   visible (arrive 0 (BodyJson (JArr [alice]))
     (run [Input ''a'', Advance 300, Arrive 0 (Headers True), Input ''ab'', Advance 300] init))
     = (JArr [], False, - 1)"
  using stale_result_never_applied
    [of "[Input ''a'', Advance 300, Arrive 0 (Headers True), Input ''ab'', Advance 300]" 0
      "BodyJson (JArr [alice])"]
  by (simp add: eval_defs visible_def)

text \<open>
  C3, as the code has it. Clearing the input does not invalidate the request in flight
  at once: the keystroke only restarts the debounce timer. When that timer fires, 300 ms
  later, \<open>fetchUsers\<close> is called with the empty text: it aborts the controller, empties the
  suggestions and closes the dropdown. From then on every suspended call has an aborted
  signal, though it is still in flight, and until the next input event nothing that
  happens (the stale response arriving, keys, focus, timers) changes the suggestions
  from empty or opens the dropdown.
\<close>

theorem cleared_input_invalidates_after_debounce:
  "let st = run evs init;
       st1 = advance 300 (onInput [] st)
   in requests st1 = requests st \<and> all_aborted st1 \<and>
      suggestions st1 = JArr [] \<and> \<not> isOpen st1 \<and>
      (list_all (\<lambda>e. \<not> is_input e) later \<longrightarrow>
         suggestions (run later st1) = JArr [] \<and> \<not> isOpen (run later st1))"
proof -
  let ?st = "run evs init"
  let ?st1 = "advance 300 (onInput [] ?st)"
  have inv: "fetch_inv (onInput [] ?st)"
    using fetch_inv_step [of ?st "Input []"] by (simp add: fetch_inv_run fetch_inv_init)
  have a: "all_aborted ?st1 \<and> requests ?st1 = requests (onInput [] ?st)"
    by (rule advance_blank_invalidates) (simp_all add: onInput_fields new_timer_is_due inv)
  have c: "cleared ?st1"
    by (rule advance_blank_cleared) (simp_all add: onInput_fields new_timer_is_due)
  have s: "settled ?st1"
    using a c inv by (simp add: settled_def fetch_inv_advance onInput_fields)
  have "cleared (run later ?st1)" if "list_all (\<lambda>e. \<not> is_input e) later"
    using settled_run [OF s that] by (simp add: settled_def)
  with a c show ?thesis
    by (simp add: Let_def onInput_fields cleared_def)
qed

text \<open>
  A request for \<open>ab\<close> is in flight when the input is cleared; after the timer has
  fired the input is focused, the response and the payload of the request arrive, a key
  is pressed and a second passes.
\<close>

theorem cleared_input_invalidates_after_debounce_witness:
  "map rq_id (requests (advance 300 (onInput [] (run [Input ''ab'', Advance 300] init)))) = [0] \<and>
   suggestions (run [Focus, Arrive 0 (Headers True), Arrive 0 (BodyJson (JArr [alice])),
       Keydown ArrowDown, Advance 1000]
     (advance 300 (onInput [] (run [Input ''ab'', Advance 300] init)))) = JArr [] \<and>
   \<not> isOpen (run [Focus, Arrive 0 (Headers True), Arrive 0 (BodyJson (JArr [alice])),
       Keydown ArrowDown, Advance 1000]
     (advance 300 (onInput [] (run [Input ''ab'', Advance 300] init))))"
proof -
  have quiet: "list_all (\<lambda>e. \<not> is_input e)
      [Focus, Arrive 0 (Headers True), Arrive 0 (BodyJson (JArr [alice])),
       Keydown ArrowDown, Advance 1000]"
    by simp
  have inflight:
    "map rq_id (requests (advance 300 (onInput [] (run [Input ''ab'', Advance 300] init)))) = [0]"
    by (simp add: eval_defs)
  from cleared_input_invalidates_after_debounce
    [of "[Input ''ab'', Advance 300]"
      "[Focus, Arrive 0 (Headers True), Arrive 0 (BodyJson (JArr [alice])),
        Keydown ArrowDown, Advance 1000]"]
    quiet inflight
  show ?thesis
    unfolding Let_def by blast
qed

text \<open>
  C3 as stated fails: the response to \<open>ab\<close> that arrives after the clearing keystroke and
  before its timer fires is applied, and opens the dropdown over an empty input.
\<close>

theorem cleared_input_counterexample:
  "let s0 = run [Input ''ab'', Advance 300, Input ''''] init;
       s1 = run [Arrive 0 (Headers True), Arrive 0 (BodyJson (JArr [alice]))] s0
   in searchQuery s0 = [] \<and> suggestions s0 = JArr [] \<and> \<not> isOpen s0 \<and>
      suggestions s1 = JArr [alice] \<and> isOpen s1 \<and>
      \<not> (suggestions s1 = JArr [] \<and> \<not> isOpen s1)"
  by (simp add: eval_defs)

section \<open>Debouncing\<close>

text \<open>
  C2, as the code has it. \<open>onInput\<close> treats the empty text as any other: it stores the
  text and restarts the 300 ms timer, and changes neither the suggestions, nor the open
  flag, nor the log of network calls. The suggestions are emptied and the dropdown is
  closed when the timer fires, 300 ms later if nothing else is typed, and no network call
  is made for the empty text. This holds in every state, whatever timers are pending.
\<close>

theorem empty_input_clears_after_debounce:
  "suggestions (onInput q st) = suggestions st \<and> isOpen (onInput q st) = isOpen st \<and>
   calls (onInput q st) = calls st \<and> searchQuery (onInput q st) = q \<and>
   (\<exists>t\<in>set (timers (onInput q st)). tm_cb t = DebounceCb \<and> tm_due t = clock st + 300) \<and>
   suggestions (advance 300 (onInput [] st)) = JArr [] \<and>
   \<not> isOpen (advance 300 (onInput [] st)) \<and>
   calls (advance 300 (onInput [] st)) = calls st"
proof -
  have "cleared (advance 300 (onInput [] st))"
    by (rule advance_blank_cleared) (simp_all add: onInput_fields new_timer_is_due)
  moreover have "calls (advance 300 (onInput [] st)) = calls st"
    by (simp add: calls_advance onInput_fields)
  moreover have "\<exists>t\<in>set (timers (onInput q st)). tm_cb t = DebounceCb \<and> tm_due t = clock st + 300"
    using onInput_sets_timer [of q st] by blast
  ultimately show ?thesis
    by (simp add: onInput_fields cleared_def)
qed

text \<open>
  C2 as stated fails: with two suggestions shown, the input event with the empty text
  leaves them shown.
\<close>

theorem empty_input_counterexample:
  "let s0 = run [Input ''al'', Advance 300, Arrive 0 (Headers True),
                 Arrive 0 (BodyJson (JArr [alice, alan]))] init;
       s1 = onInput [] s0
   in suggestions s1 = JArr [alice, alan] \<and> isOpen s1 \<and>
      \<not> (suggestions s1 = JArr [] \<and> \<not> isOpen s1)"
  by (simp add: eval_defs)

text \<open>
  C4, as the code has it. After keystrokes that each come less than 300 ms after the
  previous one, and 300 ms or more of quiet after the last, exactly one network call has
  been issued, for the text of the last keystroke, when that text is not blank; when it
  is blank (the burst ends with the input cleared) no call has been issued.
\<close>

theorem debounce_law:
  assumes "\<forall>(q, gap)\<in>set ks. gap < 300" and "300 \<le> d"
  shows "calls (run (burst ks @ [Input q, Advance d]) (run evs init)) =
           calls (run evs init) @ (if trim q = [] then [] else [search_url q])"
proof -
  have inv: "timer_inv (run evs init)"
    by (simp add: timer_inv_run timer_inv_init)
  have quiet: "timer_inv (run (burst ks) (run evs init))"
    "calls (run (burst ks) (run evs init)) = calls (run evs init)"
    using burst_quiet [OF inv assms(1)] by simp_all
  show ?thesis
    using keystroke_then_wait [OF quiet(1), of d q] assms(2) quiet(2)
    by (simp add: run_append new_calls_def)
qed

text \<open>
  The scenario of the specification: \<open>a\<close>, then \<open>ab\<close> within 100 ms.
\<close>

theorem debounce_law_witness:
  "(100::nat) < 300 \<and> (300::nat) \<le> 300 \<and>
   calls (run (burst [(''a'', 100)] @ [Input ''ab'', Advance 300]) (run [] init)) =
     [''https://apimocker.com/users/search?q=ab'']"
  using debounce_law [where ks = "[(''a'', 100)]" and d = 300 and evs = "[]" and q = "''ab''"]
  by (simp add: trim_def is_space_def search_url_def init_def)

text \<open>
  C4 as stated fails: \<open>a\<close>, then the input cleared within 100 ms, is a burst after which
  no network call is issued.
\<close>

theorem debounce_law_counterexample:
  "calls (run (burst [(''a'', 100)] @ [Input '''', Advance 300]) init) = [] \<and>
   length (calls (run (burst [(''a'', 100)] @ [Input '''', Advance 300]) init)) \<noteq> 1"
  by (simp add: eval_defs burst_def)

section \<open>Failures and the loading flag\<close>

text \<open>
  C5 at a failing input. Two suggestions are shown; the next request is answered with a
  status that is not OK. The \<open>catch\<close> block logs the error and empties the suggestions
  and the \<open>finally\<close> block clears the loading flag, but the dropdown stays open.
\<close>

theorem failure_leaves_dropdown_open:
  "let s0 = run [Input ''al'', Advance 300, Arrive 0 (Headers True),
                 Arrive 0 (BodyJson (JArr [alice, alan])), Input ''alx'', Advance 300] init;
       s1 = arrive 1 (Headers False) s0
   in isOpen s0 \<and> map rq_id (requests s0) = [1] \<and> aborted s0 = [0] \<and>
      suggestions s1 = JArr [] \<and> console s1 = [ApiError] \<and> \<not> isLoading s1 \<and> isOpen s1"
  by (simp add: eval_defs)

text \<open>
  C6 at a failing input. The request for \<open>a\<close> is aborted by the request for \<open>ab\<close>, which
  sets the loading flag. The rejection of the aborted request then runs the \<open>finally\<close>
  block, which clears the flag while the request for \<open>ab\<close> is still in flight.
\<close>

theorem aborted_request_clears_loading:
  "let s0 = run [Input ''a'', Advance 300, Input ''ab'', Advance 300] init;
       s1 = arrive 0 FetchRejected s0
   in isLoading s0 \<and> aborted s0 = [0] \<and> map rq_signal (requests s0) = [0, 1] \<and>
      map rq_signal (requests s1) = [1] \<and> aborted s1 = [0] \<and> \<not> isLoading s1"
  by (simp add: eval_defs)

section \<open>The payload\<close>

text \<open>
  C7 at a failing input. A payload with the list under \<open>results\<close>, or a bare list,
  becomes the suggestions; a bare object without \<open>results\<close> is truthy and becomes the
  suggestions itself, where the claim has the empty list.
\<close>

theorem bare_object_becomes_suggestions:
  "normalize (JObj [(''results'', JArr xs)]) = JArr xs \<and>
   normalize (JArr xs) = JArr xs \<and>
   normalize (JObj [(''name'', JStr ''x'')]) = JObj [(''name'', JStr ''x'')] \<and>
   suggestions (on_data (JObj [(''name'', JStr ''x'')]) st) = JObj [(''name'', JStr ''x'')] \<and>
   suggestions (on_data (JObj [(''name'', JStr ''x'')]) st) \<noteq> JArr []"
  by (simp add: normalize_def on_data_def)

section \<open>The active index\<close>

text \<open>
  C8, as the code has it. In every state reached by a run whose payloads are lists (so
  that the suggestions are a list throughout), the active index is at least -1 and, when
  the suggestions are not empty, at most their length minus one. A successful response
  resets the index to -1 when the new suggestions have a truthy length; a replacement by
  the empty list (a response with no suggestions, a commit, the empty query) leaves the
  index as it is.
\<close>

theorem active_index_range:
  "(list_all list_payload evs \<longrightarrow>
      (let st = run evs init in
         is_list (suggestions st) \<and> - 1 \<le> activeIndex st \<and>
         (\<forall>xs. suggestions st = JArr xs \<and> xs \<noteq> [] \<longrightarrow> activeIndex st < int (length xs)))) \<and>
   (data \<noteq> JNull \<and> truthy_opt (js_length (normalize data)) \<longrightarrow>
      activeIndex (on_data data s) = - 1) \<and>
   (\<not> truthy_opt (js_length (normalize data)) \<longrightarrow>
      activeIndex (on_data data s) = activeIndex s) \<and>
   activeIndex (selectItem u s) = activeIndex s \<and>
   activeIndex (fetchUsers q s) = activeIndex s"
proof -
  have "index_inv (run evs init)"
    by (simp add: index_inv_run index_inv_init)
  then have "- 1 \<le> activeIndex (run evs init)"
    and "\<forall>xs. suggestions (run evs init) = JArr xs \<and> xs \<noteq> [] \<longrightarrow>
           activeIndex (run evs init) < int (length xs)"
    by (auto simp: index_inv_def)
  moreover have "is_list (suggestions (run evs init))" if "list_all list_payload evs"
    using that by (intro is_list_run) (simp_all add: init_def)
  moreover have "activeIndex (fetchUsers q s) = activeIndex s"
    by (simp add: fetchUsers_def Let_def split: option.splits)
  ultimately show ?thesis
    by (simp add: Let_def on_data_def catch_finally_def selectItem_def)
qed

text \<open>
  Two suggestions, ArrowDown and the pointer on the second item: the index is 1. A
  response with one suggestion resets an index of 3; a response with none leaves it.
\<close>

theorem active_index_range_witness:
  "list_all list_payload [Input ''al'', Advance 300, Arrive 0 (Headers True),
       Arrive 0 (BodyJson (JArr [alice, alan])), Keydown ArrowDown, MouseEnter 1] \<and>
   suggestions (run [Input ''al'', Advance 300, Arrive 0 (Headers True),
       Arrive 0 (BodyJson (JArr [alice, alan])), Keydown ArrowDown, MouseEnter 1] init)
     = JArr [alice, alan] \<and>
   activeIndex (run [Input ''al'', Advance 300, Arrive 0 (Headers True),
       Arrive 0 (BodyJson (JArr [alice, alan])), Keydown ArrowDown, MouseEnter 1] init) = 1 \<and>
   activeIndex (on_data (JArr [alice]) (init\<lparr> activeIndex := 3 \<rparr>)) = - 1 \<and>
   activeIndex (on_data (JArr []) (init\<lparr> activeIndex := 3 \<rparr>)) = 3"
  using active_index_range
    [of "[Input ''al'', Advance 300, Arrive 0 (Headers True),
       Arrive 0 (BodyJson (JArr [alice, alan])), Keydown ArrowDown, MouseEnter 1]"
      "JArr [alice]" "init\<lparr> activeIndex := 3 \<rparr>"]
    active_index_range [of "[]" "JArr []" "init\<lparr> activeIndex := 3 \<rparr>"]
  by (simp add: eval_defs)

text \<open>
  C8 as stated fails: the first suggestion is highlighted when a response
  with no suggestions arrives; the index stays 0, above the length minus one of the
  empty list.
\<close>

theorem active_index_counterexample:
  "let s0 = run [Input ''al'', Advance 300, Arrive 0 (Headers True),
                 Arrive 0 (BodyJson (JArr [alice, alan])), Keydown ArrowDown,
                 Input ''alz'', Advance 300, Arrive 1 (Headers True)] init;
       s1 = arrive 1 (BodyJson (JArr [])) s0
   in suggestions s0 = JArr [alice, alan] \<and> activeIndex s0 = 0 \<and>
      suggestions s1 = JArr [] \<and> activeIndex s1 = 0 \<and>
      \<not> activeIndex s1 \<le> int (length ([] :: json list)) - 1"
  by (simp add: eval_defs)

text \<open>
  C9. With the suggestions an array \<open>xs\<close>: ArrowDown increments the active index exactly
  when the dropdown is open and the index is below \<open>length xs - 1\<close>, and is a no-op
  otherwise; ArrowUp decrements it exactly when the dropdown is open and the index is
  above 0, and is a no-op otherwise (so it never goes from 0 to -1); and from an index in
  \<open>[-1, length xs - 1]\<close> no sequence of the two keys leads outside that range.
\<close>

theorem navigation_bounded:
  assumes "suggestions st = JArr xs"
  shows "onKeydown ArrowDown st =
           (if isOpen st \<and> activeIndex st < int (length xs) - 1
            then st\<lparr> activeIndex := activeIndex st + 1 \<rparr> else st) \<and>
         onKeydown ArrowUp st =
           (if isOpen st \<and> activeIndex st > 0
            then st\<lparr> activeIndex := activeIndex st - 1 \<rparr> else st) \<and>
         (- 1 \<le> activeIndex st \<and> activeIndex st \<le> int (length xs) - 1 \<and>
            set ks \<subseteq> {ArrowDown, ArrowUp} \<longrightarrow>
          - 1 \<le> activeIndex (run (map Keydown ks) st) \<and>
          activeIndex (run (map Keydown ks) st) \<le> int (length xs) - 1)"
proof -
  have "onKeydown ArrowDown st =
          (if isOpen st \<and> activeIndex st < int (length xs) - 1
           then st\<lparr> activeIndex := activeIndex st + 1 \<rparr> else st)"
    using assms by (simp add: onKeydown_def below_last_def)
  moreover have "onKeydown ArrowUp st =
          (if isOpen st \<and> activeIndex st > 0
           then st\<lparr> activeIndex := activeIndex st - 1 \<rparr> else st)"
    by (simp add: onKeydown_def)
  ultimately show ?thesis
    using nav_keys_range [OF assms, of ks] by blast
qed

text \<open>
  Two suggestions, the dropdown open, the second one highlighted: ArrowDown does
  nothing, ArrowUp moves to the first, a second ArrowUp stays there; with the dropdown
  closed neither key does anything.
\<close>

theorem navigation_bounded_witness:
  "onKeydown ArrowDown (init\<lparr> suggestions := JArr [alice, alan], isOpen := True, activeIndex := 1 \<rparr>)
     = init\<lparr> suggestions := JArr [alice, alan], isOpen := True, activeIndex := 1 \<rparr> \<and>
   onKeydown ArrowUp (init\<lparr> suggestions := JArr [alice, alan], isOpen := True, activeIndex := 1 \<rparr>)
     = init\<lparr> suggestions := JArr [alice, alan], isOpen := True, activeIndex := 0 \<rparr> \<and>
   activeIndex (run (map Keydown [ArrowUp, ArrowUp, ArrowDown, ArrowDown, ArrowDown])
     (init\<lparr> suggestions := JArr [alice, alan], isOpen := True, activeIndex := 1 \<rparr>)) \<le> 1 \<and>
   onKeydown ArrowDown (init\<lparr> suggestions := JArr [alice, alan], activeIndex := 0 \<rparr>)
     = init\<lparr> suggestions := JArr [alice, alan], activeIndex := 0 \<rparr> \<and>
   onKeydown ArrowUp (init\<lparr> suggestions := JArr [alice, alan], activeIndex := 1 \<rparr>)
     = init\<lparr> suggestions := JArr [alice, alan], activeIndex := 1 \<rparr>"
  using navigation_bounded
    [of "init\<lparr> suggestions := JArr [alice, alan], isOpen := True, activeIndex := 1 \<rparr>"
      "[alice, alan]" "[ArrowUp, ArrowUp, ArrowDown, ArrowDown, ArrowDown]"]
    navigation_bounded
    [of "init\<lparr> suggestions := JArr [alice, alan], activeIndex := 0 \<rparr>" "[alice, alan]" "[]"]
    navigation_bounded
    [of "init\<lparr> suggestions := JArr [alice, alan], activeIndex := 1 \<rparr>" "[alice, alan]" "[]"]
  by (simp add: eval_defs)

text \<open>
  C10 at a failing input. The first of two suggestions is highlighted when the next
  request fails: the suggestions are emptied, the dropdown stays open and the index
  stays 0. Enter then commits \<open>suggestions[0]\<close> of the empty list, which is \<open>undefined\<close>.
\<close>

theorem enter_commits_undefined:
  "let s0 = run [Input ''al'', Advance 300, Arrive 0 (Headers True),
                 Arrive 0 (BodyJson (JArr [alice, alan])), Keydown ArrowDown,
                 Input ''alx'', Advance 300, Arrive 1 (Headers False)] init;
       s1 = onKeydown Enter s0
   in isOpen s0 \<and> activeIndex s0 = 0 \<and> suggestions s0 = JArr [] \<and>
      js_index (suggestions s0) (nat (activeIndex s0)) = None \<and>
      emitted s1 = [None] \<and> selectedUser s1 = None \<and> searchQuery s1 = []"
  by (simp add: eval_defs)

end
